theory Spec2Isabelle
  imports Main "HOL-Library.AList" "HOL-Library.Sublist"
begin

section \<open>Publish retry handler (data\_pipeline/\_producer\_retry.py)\<close>

subsection \<open>Data\<close>

text \<open>
  A produce request carries a topic, a partition and its messages (opaque payloads).
  The field \<open>partition\<close> of the source is called \<open>partition_id\<close> here, because
  \<open>partition\<close> is a list function of HOL.
\<close>

record request =
  topic :: string
  partition_id :: int
  messages :: "string list"

text \<open>
  A response is a \<open>ProduceResponse\<close> (topic, partition, error code, offset) or an
  exception object such as \<open>FailedPayloadsError\<close>.
\<close>

datatype response =
  ProduceResponse (resp_topic: string) (resp_partition: int) (resp_error: int) (resp_offset: int)
  | ExceptionResponse

text \<open>The namedtuple \<open>_Stats\<close> with its \<open>__add__\<close>.\<close>

record stats =
  offset :: int
  message_count :: int

definition Stats :: "int \<Rightarrow> int \<Rightarrow> stats" where
  "Stats off cnt = \<lparr>offset = off, message_count = cnt\<rparr>"

definition stats_add :: "stats \<Rightarrow> stats \<Rightarrow> stats" where
  "stats_add a b = Stats (offset a + offset b) (message_count a + message_count b)"

datatype PublishGuaranteeEnum = exact_once | at_least_once

text \<open>
  The exceptions the handler tells apart: \<open>yelp_kafka.error.UnknownTopic\<close>,
  \<open>yelp_kafka.error.UnknownPartitions\<close>, \<open>kafka.common.LeaderNotAvailableError\<close>,
  and every other \<open>Exception\<close>.
\<close>

datatype exn = UnknownTopic | UnknownPartitions | LeaderNotAvailableError | OtherException

text \<open>
  The two external calls of the handler are parameters of the model:
  \<open>get_actual_published_messages_count\<close> (of \<open>data_pipeline._kafka_util\<close>), called
  with a list of topics and the tracked offsets (which may be Python's \<open>None\<close>),
  returns a dict from topic to count or raises; \<open>load_metadata_for_topics\<close> of the
  kafka client returns or raises. During one call of \<open>update_unpublished_requests\<close>
  the broker answers the same question the same way: the two calls are functions of
  their arguments.
\<close>

type_synonym topic_offsets = "(string \<rightharpoonup> int) option"

record kafka_env =
  get_actual_published_messages_count :: "string list \<Rightarrow> topic_offsets \<Rightarrow> exn + (string \<rightharpoonup> int)"
  load_metadata_for_topics :: "string \<Rightarrow> exn + unit"

type_synonym stats_map = "((string \<times> int) \<times> stats) list"

record retry_handler =
  initial_requests :: "request list"
  requests_to_be_sent :: "request list"
  publish_guarantee :: PublishGuaranteeEnum
  success_topic_stats_map :: stats_map
  success_topic_accum_stats_map :: stats_map

subsection \<open>Operations\<close>

definition RetryHandler :: "request list \<Rightarrow> PublishGuaranteeEnum \<Rightarrow> retry_handler" where
  "RetryHandler requests guarantee =
     \<lparr>initial_requests = requests,
      requests_to_be_sent = requests,
      publish_guarantee = guarantee,
      success_topic_stats_map = [],
      success_topic_accum_stats_map = []\<rparr>"

definition is_success_response :: "response \<Rightarrow> bool" where
  "is_success_response r =
     (case r of ExceptionResponse \<Rightarrow> False | ProduceResponse t p e off \<Rightarrow> e = 0)"

text \<open>
  The dict comprehension \<open>{(r.topic, r.partition): r for r in responses if ...}\<close>:
  a later success response for the same key replaces an earlier one.
\<close>

definition success_responses :: "response list \<Rightarrow> (string \<times> int) \<rightharpoonup> response" where
  "success_responses responses =
     fold (\<lambda>r m. if is_success_response r then m((resp_topic r, resp_partition r) \<mapsto> r) else m)
       responses Map.empty"

definition update_success_topic_stats ::
  "string \<Rightarrow> int \<Rightarrow> stats \<Rightarrow> retry_handler \<Rightarrow> retry_handler" where
  "update_success_topic_stats tp part new_stats s =
     (let key = (tp, part);
          s1 = s\<lparr>success_topic_stats_map := AList.update key new_stats (success_topic_stats_map s)\<rparr>;
          accum_stats = (case map_of (success_topic_accum_stats_map s1) key of
                           None \<Rightarrow> Stats 0 0 | Some a \<Rightarrow> a)
      in s1\<lparr>success_topic_accum_stats_map :=
              AList.update key (stats_add accum_stats new_stats) (success_topic_accum_stats_map s1)\<rparr>)"

text \<open>One iteration of the loop of \<open>_update_success_requests_stats\<close>.\<close>

definition success_request_step ::
  "((string \<times> int) \<rightharpoonup> response) \<Rightarrow> request \<Rightarrow> request list \<times> retry_handler
     \<Rightarrow> request list \<times> retry_handler" where
  "success_request_step sr req st =
     (case st of (requests_to_retry, s) \<Rightarrow>
        (case sr (topic req, partition_id req) of
           None \<Rightarrow> (requests_to_retry @ [req], s)
         | Some resp \<Rightarrow>
             (requests_to_retry,
              update_success_topic_stats (topic req) (partition_id req)
                (Stats (resp_offset resp) (int (length (messages req)))) s)))"

definition update_success_requests_stats ::
  "request list \<Rightarrow> response list \<Rightarrow> retry_handler \<Rightarrow> request list \<times> retry_handler" where
  "update_success_requests_stats requests responses s =
     fold (success_request_step (success_responses responses)) requests ([], s)"

definition get_published_msg_count ::
  "kafka_env \<Rightarrow> string \<Rightarrow> topic_offsets \<Rightarrow> exn + int option" where
  "get_published_msg_count env tp offs =
     (case get_actual_published_messages_count env [tp] offs of
        Inl e \<Rightarrow> Inl e
      | Inr published_msgs_count_map \<Rightarrow> Inr (published_msgs_count_map tp))"

definition try_load_topic_metadata :: "kafka_env \<Rightarrow> request \<Rightarrow> bool" where
  "try_load_topic_metadata env req =
     (case load_metadata_for_topics env (topic req) of
        Inr u \<Rightarrow> True
      | Inl e \<Rightarrow> (if e = LeaderNotAvailableError then True else False))"

text \<open>
  One iteration of the loop of \<open>_verify_failed_requests\<close>. The lookup
  \<open>topic_offsets[topic]\<close> is inside the \<open>try\<close>: with \<open>topic_offsets\<close> being
  \<open>None\<close> (a \<open>TypeError\<close>) or lacking the topic (a \<open>KeyError\<close>) it raises, the
  last handler catches it and the request is neither retried nor counted.
\<close>

definition verify_request_step ::
  "kafka_env \<Rightarrow> topic_offsets \<Rightarrow> request \<Rightarrow> request list \<times> retry_handler
     \<Rightarrow> request list \<times> retry_handler" where
  "verify_request_step env offs req st =
     (case st of (requests_to_retry, s) \<Rightarrow>
        (case get_published_msg_count env (topic req) offs of
           Inr None \<Rightarrow> (requests_to_retry @ [req], s)
         | Inr (Some published_count) \<Rightarrow>
             (if int (length (messages req)) \<noteq> published_count
              then (requests_to_retry @ [req], s)
              else (case offs of
                      None \<Rightarrow> (requests_to_retry, s)
                    | Some tracked \<Rightarrow>
                        (case tracked (topic req) of
                           None \<Rightarrow> (requests_to_retry, s)
                         | Some tracked_offset \<Rightarrow>
                             (requests_to_retry,
                              update_success_topic_stats (topic req) (partition_id req)
                                (Stats (published_count + tracked_offset) published_count) s))))
         | Inl e \<Rightarrow>
             (if e = UnknownTopic \<or> e = UnknownPartitions
              then (if try_load_topic_metadata env req
                    then (requests_to_retry @ [req], s)
                    else (requests_to_retry, s))
              else (requests_to_retry, s))))"

definition verify_failed_requests ::
  "kafka_env \<Rightarrow> request list \<Rightarrow> topic_offsets \<Rightarrow> retry_handler \<Rightarrow> request list \<times> retry_handler" where
  "verify_failed_requests env requests offs s =
     fold (verify_request_step env offs) requests ([], s)"

definition update_unpublished_requests ::
  "kafka_env \<Rightarrow> response list \<Rightarrow> topic_offsets \<Rightarrow> retry_handler \<Rightarrow> retry_handler" where
  "update_unpublished_requests env responses offs s =
     (let s0 = s\<lparr>success_topic_stats_map := []\<rparr>;
          r1 = update_success_requests_stats (requests_to_be_sent s0) responses s0;
          r2 = (if publish_guarantee (snd r1) = exact_once
                then verify_failed_requests env (fst r1) offs (snd r1)
                else r1)
      in (snd r2)\<lparr>requests_to_be_sent := fst r2\<rparr>)"

definition total_published_message_count :: "retry_handler \<Rightarrow> int" where
  "total_published_message_count s =
     sum_list (map (\<lambda>kv. message_count (snd kv)) (success_topic_accum_stats_map s))"

definition has_unpublished_request :: "retry_handler \<Rightarrow> bool" where
  "has_unpublished_request s =
     (let request_topics_partitions =
            set (map (\<lambda>r. (topic r, partition_id r)) (initial_requests s));
          response_topics_partitions =
            set (map fst (success_topic_accum_stats_map s))
      in \<not> request_topics_partitions \<subseteq> response_topics_partitions)"

section \<open>Consumer offsets and rebalance (data\_pipeline/base\_consumer.py)\<close>

subsection \<open>Data\<close>

text \<open>
  A message as far as committing needs it: its topic and its
  \<open>kafka_position_info\<close> (partition and offset).
\<close>

record KafkaPositionInfo =
  kp_partition :: int
  kp_offset :: int

record Message =
  msg_topic :: string
  kafka_position_info :: KafkaPositionInfo

text \<open>
  Dicts that the code iterates are association lists read with \<open>map_of\<close> and written
  with \<open>AList.update\<close>: \<open>{topic: {partition: offset}}\<close> is an \<open>offsets_map\<close>.
\<close>

type_synonym offsets_map = "(string \<times> (int \<times> int) list) list"

datatype OffsetCommitRequest =
  OffsetCommitRequest (ocr_topic: string) (ocr_partition: int) (ocr_offset: int)
    (ocr_metadata: "string option")

text \<open>
  The consumer's state: the fields the modelled methods read and write, the payloads of
  every \<open>kafka_client.send_offset_commit_request\<close> call so far (oldest first) and the
  messages given to \<open>logger.exception\<close>. A value \<open>None\<close> in
  \<open>topic_to_partition_map\<close> is Python's \<open>None\<close> (partitions not known yet).
\<close>

record consumer =
  running :: bool
  topic_to_partition_map :: "(string \<times> int list option) list"
  topic_to_partition_offset_map_cache :: offsets_map
  sent_offset_commit_requests :: "OffsetCommitRequest list list"
  logged_exceptions :: "string list"

subsection \<open>Committing\<close>

definition reset_topic_to_partition_offset_cache :: "consumer \<Rightarrow> consumer" where
  "reset_topic_to_partition_offset_cache s = s\<lparr>topic_to_partition_offset_map_cache := []\<rparr>"

text \<open>One iteration of the loop of \<open>commit_messages\<close>.\<close>

definition commit_messages_step :: "Message \<Rightarrow> offsets_map \<Rightarrow> offsets_map" where
  "commit_messages_step message topic_to_partition_offset_map =
     (let pos_info = kafka_position_info message;
          partition_offset_map =
            (case map_of topic_to_partition_offset_map (msg_topic message) of
               None \<Rightarrow> [] | Some pm \<Rightarrow> pm);
          max_offset =
            (case map_of partition_offset_map (kp_partition pos_info) of
               None \<Rightarrow> 0 | Some v \<Rightarrow> v)
      in AList.update (msg_topic message)
           (AList.update (kp_partition pos_info) (max (kp_offset pos_info) max_offset + 1)
              partition_offset_map)
           topic_to_partition_offset_map)"

text \<open>The map that \<open>commit_messages\<close> hands to \<open>commit_offsets\<close>.\<close>

definition messages_offsets_map :: "Message list \<Rightarrow> offsets_map" where
  "messages_offsets_map msgs = fold commit_messages_step msgs []"

text \<open>
  The body of the inner loop of \<open>_get_offsets_map_to_be_committed\<close>. The cache is a
  \<open>defaultdict(dict)\<close>: reading \<open>cache[topic]\<close> for a topic it lacks stores an
  empty dict there first.
\<close>

definition offsets_step ::
  "string \<Rightarrow> int \<times> int \<Rightarrow> offsets_map \<times> offsets_map \<Rightarrow> offsets_map \<times> offsets_map" where
  "offsets_step tp po st =
     (case st of (cache, filtered) \<Rightarrow>
        (let part = fst po; off = snd po;
             cache1 = (case map_of cache tp of None \<Rightarrow> AList.update tp [] cache | Some pm \<Rightarrow> cache);
             cached = (case map_of cache1 tp of None \<Rightarrow> [] | Some pm \<Rightarrow> pm)
         in if map_of cached part = None \<or> map_of cached part \<noteq> Some off
            then (AList.update tp (AList.update part off cached) cache1,
                  AList.update tp
                    (AList.update part off
                       (case map_of filtered tp of None \<Rightarrow> [] | Some pm \<Rightarrow> pm))
                    filtered)
            else (cache1, filtered)))"

definition get_offsets_map_to_be_committed ::
  "offsets_map \<Rightarrow> offsets_map \<Rightarrow> offsets_map \<times> offsets_map" where
  "get_offsets_map_to_be_committed topic_to_partition_offset_map cache =
     fold (\<lambda>tpm. fold (offsets_step (fst tpm)) (snd tpm)) topic_to_partition_offset_map (cache, [])"

definition offset_commit_request_list :: "offsets_map \<Rightarrow> OffsetCommitRequest list" where
  "offset_commit_request_list topic_to_partition_offset_map =
     concat (map (\<lambda>tpm. map (\<lambda>po. OffsetCommitRequest (fst tpm) (fst po) (snd po) None) (snd tpm))
               topic_to_partition_offset_map)"

definition send_offset_commit_requests :: "OffsetCommitRequest list \<Rightarrow> consumer \<Rightarrow> consumer" where
  "send_offset_commit_requests payloads s =
     (if length payloads > 0
      then s\<lparr>sent_offset_commit_requests := sent_offset_commit_requests s @ [payloads]\<rparr>
      else s)"

definition commit_offsets :: "offsets_map \<Rightarrow> consumer \<Rightarrow> consumer" where
  "commit_offsets topic_to_partition_offset_map s =
     (let r = get_offsets_map_to_be_committed topic_to_partition_offset_map
                (topic_to_partition_offset_map_cache s)
      in send_offset_commit_requests (offset_commit_request_list (snd r))
           (s\<lparr>topic_to_partition_offset_map_cache := fst r\<rparr>))"

definition commit_messages :: "Message list \<Rightarrow> consumer \<Rightarrow> consumer" where
  "commit_messages msgs s = commit_offsets (messages_offsets_map msgs) s"

text \<open>
  A Python dict has each key once: a well-formed \<open>offsets_map\<close> has distinct topics and,
  under each topic, distinct partitions.
\<close>

definition wf_offsets_map :: "offsets_map \<Rightarrow> bool" where
  "wf_offsets_map m =
     (distinct (map fst m) \<and> list_all (\<lambda>tpm. distinct (map fst (snd tpm))) m)"

text \<open>The entries \<open>(topic, partition, offset)\<close> of a map, and the cached offset.\<close>

definition entries :: "offsets_map \<Rightarrow> (string \<times> int \<times> int) list" where
  "entries m = concat (map (\<lambda>tpm. map (\<lambda>po. (fst tpm, fst po, snd po)) (snd tpm)) m)"

definition cached_offset :: "offsets_map \<Rightarrow> string \<Rightarrow> int \<Rightarrow> int option" where
  "cached_offset cache tp part =
     (case map_of cache tp of None \<Rightarrow> None | Some pm \<Rightarrow> map_of pm part)"

definition payload_entry :: "OffsetCommitRequest \<Rightarrow> string \<times> int \<times> int" where
  "payload_entry r = (ocr_topic r, ocr_partition r, ocr_offset r)"

subsection \<open>Rebalance\<close>

text \<open>
  \<open>_apply_post_rebalance_callback_to_partition\<close>. The assignment \<open>partitions\<close> is a
  dict from topic to its partitions; \<open>partitions.get(key)\<close> is \<open>map_of partitions key\<close>.
  The user's callback is a parameter. It runs inside the handler, after the map is
  replaced and the cache reset, and it may use the consumer (commit offsets, say): it
  takes the assignment and the consumer and gives its result and the consumer as it
  leaves it, which is the consumer the handler leaves.
\<close>

definition apply_post_rebalance_callback_to_partition ::
  "((string \<times> int list) list \<Rightarrow> consumer \<Rightarrow> 'r \<times> consumer) option
     \<Rightarrow> (string \<times> int list) list \<Rightarrow> consumer \<Rightarrow> 'r option \<times> consumer" where
  "apply_post_rebalance_callback_to_partition post_rebalance_callback partitions s =
     (let s1 = s\<lparr>topic_to_partition_map :=
                  fold (\<lambda>key m. AList.update key (map_of partitions key) m) (map fst partitions) []\<rparr>;
          s2 = reset_topic_to_partition_offset_cache s1
      in case post_rebalance_callback of
           None \<Rightarrow> (None, s2)
         | Some callback \<Rightarrow>
             (case callback partitions s2 of (result, s3) \<Rightarrow> (Some result, s3)))"

subsection \<open>Leaving the context manager\<close>

text \<open>
  \<open>stop\<close>: the derived class's \<open>_stop\<close> and \<open>kafka_client.close\<close> are external;
  each either returns (\<open>None\<close>) or raises (\<open>Some e\<close>). The result is the exception
  that leaves \<open>stop\<close>, if any, and the state reached.
\<close>

definition stop :: "exn option \<Rightarrow> exn option \<Rightarrow> consumer \<Rightarrow> exn option \<times> consumer" where
  "stop stop_impl close_impl s =
     (case (if running s then stop_impl else None) of
        Some e \<Rightarrow> (Some e, s)
      | None \<Rightarrow>
          (case close_impl of
             Some e \<Rightarrow> (Some e, s)
           | None \<Rightarrow> (None, (reset_topic_to_partition_offset_cache s)\<lparr>running := False\<rparr>)))"

datatype exit_outcome = Returns bool | Raises exn

text \<open>\<open>__exit__\<close>: \<open>exc_type\<close> is \<open>None\<close> when the body raised nothing.\<close>

definition exit_consumer ::
  "exn option \<Rightarrow> exn option \<Rightarrow> exn option \<Rightarrow> consumer \<Rightarrow> exit_outcome \<times> consumer" where
  "exit_consumer stop_impl close_impl exc_type s =
     (case stop stop_impl close_impl s of
        (None, s1) \<Rightarrow> (Returns False, s1)
      | (Some e, s1) \<Rightarrow>
          (let s2 = s1\<lparr>logged_exceptions := logged_exceptions s1 @ [''Failed to stop the Consumer.'']\<rparr>
           in if exc_type = None then (Raises e, s2) else (Returns False, s2)))"

text \<open>
  What the \<open>with\<close> statement of Python does with the outcome of \<open>__exit__\<close>: an
  exception raised by \<open>__exit__\<close> propagates; otherwise the body's exception
  propagates unless \<open>__exit__\<close> returned a true value.
\<close>

definition with_propagates :: "exn option \<Rightarrow> exit_outcome \<Rightarrow> exn option" where
  "with_propagates body_exception outcome =
     (case outcome of
        Raises e \<Rightarrow> Some e
      | Returns suppress \<Rightarrow>
          (case body_exception of
             None \<Rightarrow> None
           | Some e \<Rightarrow> (if suppress then None else Some e)))"

section \<open>Notions used to state the properties\<close>

text \<open>
  A request is disputed when no success response has its topic and partition:
  the test \<open>if not response\<close> of \<open>_update_success_requests_stats\<close>.
\<close>

definition is_disputed :: "response list \<Rightarrow> request \<Rightarrow> bool" where
  "is_disputed responses r = (success_responses responses (topic r, partition_id r) = None)"

text \<open>
  The branches of \<open>_verify_failed_requests\<close> that append the request to
  \<open>requests_to_retry\<close>.
\<close>

definition retry_decision :: "kafka_env \<Rightarrow> topic_offsets \<Rightarrow> request \<Rightarrow> bool" where
  "retry_decision env offs req =
     (case get_published_msg_count env (topic req) offs of
        Inr None \<Rightarrow> True
      | Inr (Some published_count) \<Rightarrow> int (length (messages req)) \<noteq> published_count
      | Inl e \<Rightarrow> (e = UnknownTopic \<or> e = UnknownPartitions) \<and> try_load_topic_metadata env req)"

text \<open>
  The cumulative statistics of a key, as \<open>_update_success_topic_stats\<close> reads them:
  \<open>accum_stats_map.get(key) or _Stats(0, 0)\<close>.
\<close>

definition accum_at :: "retry_handler \<Rightarrow> string \<times> int \<Rightarrow> stats" where
  "accum_at s k =
     (case map_of (success_topic_accum_stats_map s) k of None \<Rightarrow> Stats 0 0 | Some a \<Rightarrow> a)"

text \<open>
  The requests of a list for one topic and partition whose number of messages is the
  count that the broker reports for the topic.
\<close>

definition hidden_successes :: "string \<times> int \<Rightarrow> int \<Rightarrow> request list \<Rightarrow> request list" where
  "hidden_successes k c reqs =
     filter (\<lambda>r. (topic r, partition_id r) = k \<and> int (length (messages r)) = c) reqs"

subsection \<open>Example inputs\<close>

text \<open>
  Two requests for \<open>topicA\<close>: three messages for partition 0 and two for partition 1.
  The first response is a success at offset 10, the second a transport failure; the
  tracked offset of \<open>topicA\<close> is 7 and the broker reports 2 published messages.
\<close>

definition example_requests :: "request list" where
  "example_requests =
     [\<lparr>topic = ''topicA'', partition_id = 0, messages = [''m1'', ''m2'', ''m3'']\<rparr>,
      \<lparr>topic = ''topicA'', partition_id = 1, messages = [''m4'', ''m5'']\<rparr>]"

definition example_responses :: "response list" where
  "example_responses = [ProduceResponse ''topicA'' 0 0 10, ExceptionResponse]"

definition all_success_responses :: "response list" where
  "all_success_responses = [ProduceResponse ''topicA'' 0 0 10, ProduceResponse ''topicA'' 1 0 20]"

definition example_offsets :: topic_offsets where
  "example_offsets = Some (\<lambda>t. if t = ''topicA'' then Some 7 else None)"

definition example_env :: kafka_env where
  "example_env =
     \<lparr>get_actual_published_messages_count =
        (\<lambda>topics offs. Inr (\<lambda>t. if t = ''topicA'' then Some 2 else None)),
      load_metadata_for_topics = (\<lambda>t. Inr ())\<rparr>"

text \<open>A broker that does not know the topic yet and is about to create it.\<close>

definition creating_topic_env :: kafka_env where
  "creating_topic_env =
     \<lparr>get_actual_published_messages_count = (\<lambda>topics offs. Inl UnknownTopic),
      load_metadata_for_topics = (\<lambda>t. Inl LeaderNotAvailableError)\<rparr>"

text \<open>A broker whose watermark query fails for another reason.\<close>

definition failing_env :: kafka_env where
  "failing_env =
     \<lparr>get_actual_published_messages_count = (\<lambda>topics offs. Inl OtherException),
      load_metadata_for_topics = (\<lambda>t. Inr ())\<rparr>"

text \<open>The handler after the round of the example.\<close>

definition example_done :: retry_handler where
  "example_done =
     \<lparr>initial_requests = example_requests,
      requests_to_be_sent = [],
      publish_guarantee = exact_once,
      success_topic_stats_map = [((''topicA'', 0), Stats 10 3), ((''topicA'', 1), Stats 9 2)],
      success_topic_accum_stats_map =
        [((''topicA'', 0), Stats 10 3), ((''topicA'', 1), Stats 9 2)]\<rparr>"

definition message_at :: "string \<Rightarrow> int \<Rightarrow> int \<Rightarrow> Message" where
  "message_at tp part off =
     \<lparr>msg_topic = tp, kafka_position_info = \<lparr>kp_partition = part, kp_offset = off\<rparr>\<rparr>"

definition example_consumer :: consumer where
  "example_consumer =
     \<lparr>running = True,
      topic_to_partition_map = [(''old_topic'', Some [0, 1]), (''pending_topic'', None)],
      topic_to_partition_offset_map_cache = [(''old_topic'', [(0, 5)])],
      sent_offset_commit_requests = [],
      logged_exceptions = []\<rparr>"

text \<open>
  A handler in a later round: both requests are pending again and both keys have
  cumulative statistics from earlier rounds.
\<close>

definition retried_handler :: retry_handler where
  "retried_handler =
     \<lparr>initial_requests = example_requests,
      requests_to_be_sent = example_requests,
      publish_guarantee = exact_once,
      success_topic_stats_map = [],
      success_topic_accum_stats_map =
        [((''topicA'', 0), Stats 10 3), ((''topicA'', 1), Stats 100 4)]\<rparr>"

text \<open>A consumer just started: nothing cached, nothing sent.\<close>

definition fresh_consumer :: consumer where
  "fresh_consumer =
     \<lparr>running = True,
      topic_to_partition_map = [(''t'', None)],
      topic_to_partition_offset_map_cache = [],
      sent_offset_commit_requests = [],
      logged_exceptions = []\<rparr>"

text \<open>
  Two user callbacks: one reads the offset cache and leaves the consumer as it is, the
  other commits an offset for a partition it was assigned.
\<close>

definition reading_callback ::
  "(string \<times> int list) list \<Rightarrow> consumer \<Rightarrow> offsets_map \<times> consumer" where
  "reading_callback assigned c = (topic_to_partition_offset_map_cache c, c)"

definition committing_callback :: "(string \<times> int list) list \<Rightarrow> consumer \<Rightarrow> unit \<times> consumer" where
  "committing_callback assigned c = ((), commit_offsets [(''new_topic'', [(2, 11)])] c)"

subsection \<open>Entries of an offsets map\<close>

text \<open>
  The two nested loops of \<open>_get_offsets_map_to_be_committed\<close> visit the entries of
  the map one after the other; \<open>entry_step\<close> is the loop body on one entry,
  \<open>entry_key\<close> its topic and partition, \<open>entry_map\<close> the lookup in a list of
  entries, and \<open>changed_entries\<close> the entries of a map whose offset is not the cached
  one (absent from the cache or cached with another offset).
\<close>

definition entry_step ::
  "string \<times> int \<times> int \<Rightarrow> offsets_map \<times> offsets_map \<Rightarrow> offsets_map \<times> offsets_map" where
  "entry_step e st = offsets_step (fst e) (snd e) st"

definition entry_key :: "string \<times> int \<times> int \<Rightarrow> string \<times> int" where
  "entry_key e = (fst e, fst (snd e))"

definition entry_map :: "(string \<times> int \<times> int) list \<Rightarrow> string \<times> int \<rightharpoonup> int" where
  "entry_map es = map_of (map (\<lambda>e. (entry_key e, snd (snd e))) es)"

definition changed_entries :: "offsets_map \<Rightarrow> offsets_map \<Rightarrow> (string \<times> int \<times> int) list" where
  "changed_entries m cache =
     filter (\<lambda>e. cached_offset cache (fst e) (fst (snd e)) \<noteq> Some (snd (snd e))) (entries m)"

section \<open>The retry set\<close>

lemma success_step_fst:
  "fst (success_request_step sr r st) =
     fst st @ (if sr (topic r, partition_id r) = None then [r] else [])"
  by (cases st) (simp add: success_request_step_def split: option.splits)

lemma verify_step_fst:
  "fst (verify_request_step env offs r st) =
     fst st @ (if retry_decision env offs r then [r] else [])"
  by (cases st)
     (simp add: verify_request_step_def retry_decision_def split: option.splits sum.splits)

lemma success_fold_fst:
  "fst (fold (success_request_step sr) reqs st) =
     fst st @ filter (\<lambda>r. sr (topic r, partition_id r) = None) reqs"
  by (induction reqs arbitrary: st) (simp_all add: success_step_fst)

lemma verify_fold_fst:
  "fst (fold (verify_request_step env offs) reqs st) =
     fst st @ filter (retry_decision env offs) reqs"
  by (induction reqs arbitrary: st) (simp_all add: verify_step_fst)

lemma update_success_requests_stats_fst:
  "fst (update_success_requests_stats reqs responses s) = filter (is_disputed responses) reqs"
  unfolding update_success_requests_stats_def is_disputed_def
  by (simp add: success_fold_fst)

lemma verify_failed_requests_fst:
  "fst (verify_failed_requests env reqs offs s) = filter (retry_decision env offs) reqs"
  by (simp add: verify_failed_requests_def verify_fold_fst)

lemma update_stats_guarantee:
  "publish_guarantee (update_success_topic_stats tp part st s) = publish_guarantee s"
  by (simp add: update_success_topic_stats_def Let_def)

lemma success_step_guarantee:
  "publish_guarantee (snd (success_request_step sr r st)) = publish_guarantee (snd st)"
  by (cases st) (simp add: success_request_step_def update_stats_guarantee split: option.splits)

lemma success_fold_guarantee:
  "publish_guarantee (snd (fold (success_request_step sr) reqs st)) = publish_guarantee (snd st)"
  by (induction reqs arbitrary: st) (simp_all add: success_step_guarantee)

lemma update_success_requests_stats_guarantee:
  "publish_guarantee (snd (update_success_requests_stats reqs responses s)) = publish_guarantee s"
  by (simp add: update_success_requests_stats_def success_fold_guarantee)

text \<open>
  The next retry set is the pending list filtered: by the missing success response and,
  in exact-once mode, by the outcome of the verification.
\<close>

lemma requests_to_be_sent_after:
  "requests_to_be_sent (update_unpublished_requests env responses offs s) =
     (if publish_guarantee s = exact_once
      then filter (retry_decision env offs) (filter (is_disputed responses) (requests_to_be_sent s))
      else filter (is_disputed responses) (requests_to_be_sent s))"
  by (simp add: update_unpublished_requests_def Let_def update_success_requests_stats_guarantee
      update_success_requests_stats_fst verify_failed_requests_fst)

section \<open>The cumulative statistics\<close>


lemma accum_update_stats:
  "success_topic_accum_stats_map (update_success_topic_stats tp part new s) =
     AList.update (tp, part)
       (stats_add (case map_of (success_topic_accum_stats_map s) (tp, part) of
                     None \<Rightarrow> Stats 0 0 | Some a \<Rightarrow> a) new)
       (success_topic_accum_stats_map s)"
  by (simp add: update_success_topic_stats_def Let_def)

lemma message_count_stats_add [simp]:
  "message_count (stats_add a b) = message_count a + message_count b"
  by (simp add: stats_add_def Stats_def)

lemma message_count_Stats [simp]: "message_count (Stats a b) = b"
  by (simp add: Stats_def)

lemma update_stats_keeps:
  assumes "0 \<le> message_count new"
    and "map_of (success_topic_accum_stats_map s) k = Some st"
  shows "\<exists>st'. map_of (success_topic_accum_stats_map (update_success_topic_stats tp part new s)) k
            = Some st' \<and> message_count st \<le> message_count st'"
  using assms by (auto simp: accum_update_stats update_conv')

lemma success_step_keeps:
  assumes "map_of (success_topic_accum_stats_map (snd st0)) k = Some st"
  shows "\<exists>st'. map_of (success_topic_accum_stats_map (snd (success_request_step sr r st0))) k
            = Some st' \<and> message_count st \<le> message_count st'"
proof (cases st0)
  case (Pair acc s)
  show ?thesis
  proof (cases "sr (topic r, partition_id r)")
    case None
    with Pair assms show ?thesis by (simp add: success_request_step_def)
  next
    case (Some resp)
    have "0 \<le> message_count (Stats (resp_offset resp) (int (length (messages r))))" by simp
    from update_stats_keeps [OF this, of s k st "topic r" "partition_id r"] Pair assms Some
    show ?thesis by (simp add: success_request_step_def)
  qed
qed

lemma verify_step_keeps:
  assumes "map_of (success_topic_accum_stats_map (snd st0)) k = Some st"
  shows "\<exists>st'. map_of (success_topic_accum_stats_map (snd (verify_request_step env offs r st0))) k
            = Some st' \<and> message_count st \<le> message_count st'"
proof (cases st0)
  case (Pair acc s)
  have upd: "\<And>c t. c = int (length (messages r)) \<Longrightarrow>
     \<exists>st'. map_of (success_topic_accum_stats_map
              (update_success_topic_stats (topic r) (partition_id r) (Stats (c + t) c) s)) k
            = Some st' \<and> message_count st \<le> message_count st'"
    using update_stats_keeps [of _ s k st] Pair assms by simp
  show ?thesis using Pair assms upd
    by (auto simp: verify_request_step_def split: option.splits sum.splits)
qed

lemma success_fold_keeps:
  "map_of (success_topic_accum_stats_map (snd st0)) k = Some st \<Longrightarrow>
   \<exists>st'. map_of (success_topic_accum_stats_map (snd (fold (success_request_step sr) reqs st0))) k
            = Some st' \<and> message_count st \<le> message_count st'"
proof (induction reqs arbitrary: st0 st)
  case Nil
  then show ?case by simp
next
  case (Cons r reqs)
  from success_step_keeps [OF Cons.prems, of sr r]
  obtain st1 where s1: "map_of (success_topic_accum_stats_map (snd (success_request_step sr r st0))) k = Some st1"
    and le1: "message_count st \<le> message_count st1" by blast
  from Cons.IH [OF s1] obtain st' where
    "map_of (success_topic_accum_stats_map
       (snd (fold (success_request_step sr) reqs (success_request_step sr r st0)))) k = Some st'"
    and "message_count st1 \<le> message_count st'" by blast
  with le1 show ?case by auto
qed

lemma verify_fold_keeps:
  "map_of (success_topic_accum_stats_map (snd st0)) k = Some st \<Longrightarrow>
   \<exists>st'. map_of (success_topic_accum_stats_map (snd (fold (verify_request_step env offs) reqs st0))) k
            = Some st' \<and> message_count st \<le> message_count st'"
proof (induction reqs arbitrary: st0 st)
  case Nil
  then show ?case by simp
next
  case (Cons r reqs)
  from verify_step_keeps [OF Cons.prems, of env offs r]
  obtain st1 where s1: "map_of (success_topic_accum_stats_map (snd (verify_request_step env offs r st0))) k = Some st1"
    and le1: "message_count st \<le> message_count st1" by blast
  from Cons.IH [OF s1] obtain st' where
    "map_of (success_topic_accum_stats_map
       (snd (fold (verify_request_step env offs) reqs (verify_request_step env offs r st0)))) k = Some st'"
    and "message_count st1 \<le> message_count st'" by blast
  with le1 show ?case by auto
qed


lemma sum_update:
  "(\<Sum>kv\<leftarrow>AList.update k v al. message_count (snd kv)) =
     (\<Sum>kv\<leftarrow>al. message_count (snd kv))
       - (case map_of al k of None \<Rightarrow> 0 | Some old \<Rightarrow> message_count old) + message_count v"
  by (induction al) auto

lemma total_update:
  "total_published_message_count (update_success_topic_stats tp part new s) =
     total_published_message_count s + message_count new"
  by (simp add: total_published_message_count_def accum_update_stats sum_update split: option.splits)

lemma success_responses_fold_defined:
  "(fold (\<lambda>r m. if is_success_response r then m((resp_topic r, resp_partition r) \<mapsto> r) else m)
       responses m0 k \<noteq> None) =
   (m0 k \<noteq> None \<or>
    (\<exists>resp\<in>set responses. is_success_response resp \<and> (resp_topic resp, resp_partition resp) = k))"
  by (induction responses arbitrary: m0) auto

lemma success_responses_defined:
  "(success_responses responses k \<noteq> None) =
   (\<exists>resp\<in>set responses. is_success_response resp \<and> (resp_topic resp, resp_partition resp) = k)"
  unfolding success_responses_def by (simp only: success_responses_fold_defined) simp

lemma success_step_total:
  "sr (topic r, partition_id r) \<noteq> None \<Longrightarrow>
   total_published_message_count (snd (success_request_step sr r st)) =
     total_published_message_count (snd st) + int (length (messages r))"
  by (cases st) (auto simp: success_request_step_def total_update)

lemma success_fold_total:
  "\<forall>r\<in>set reqs. sr (topic r, partition_id r) \<noteq> None \<Longrightarrow>
   total_published_message_count (snd (fold (success_request_step sr) reqs st)) =
     total_published_message_count (snd st) + (\<Sum>r\<leftarrow>reqs. int (length (messages r)))"
  by (induction reqs arbitrary: st) (simp_all add: success_step_total)

lemma total_ignores_requests:
  "total_published_message_count (s\<lparr>requests_to_be_sent := rs\<rparr>) = total_published_message_count s"
  "total_published_message_count (s\<lparr>success_topic_stats_map := m\<rparr>) = total_published_message_count s"
  by (simp_all add: total_published_message_count_def)


lemma offset_Stats: "offset (Stats a b) = a"
  by (simp add: Stats_def)

lemma stats_add_Stats:
  "stats_add a (Stats x y) = Stats (offset a + x) (message_count a + y)"
  by (simp add: stats_add_def offset_Stats)

lemma accum_lookup_update_stats:
  "map_of (success_topic_accum_stats_map (update_success_topic_stats tp part new s)) k =
     (if k = (tp, part) then Some (stats_add (accum_at s k) new)
      else map_of (success_topic_accum_stats_map s) k)"
  by (simp add: accum_update_stats update_conv' accum_at_def)

lemma success_step_other_key:
  "sr k = None \<Longrightarrow>
   map_of (success_topic_accum_stats_map (snd (success_request_step sr r st))) k =
   map_of (success_topic_accum_stats_map (snd st)) k"
  by (cases st) (auto simp: success_request_step_def accum_lookup_update_stats split: option.splits)

lemma success_fold_other_key:
  "sr k = None \<Longrightarrow>
   map_of (success_topic_accum_stats_map (snd (fold (success_request_step sr) reqs st))) k =
   map_of (success_topic_accum_stats_map (snd st)) k"
  by (induction reqs arbitrary: st) (simp_all add: success_step_other_key)

lemma verify_step_key:
  assumes "get_published_msg_count env (fst k) offs = Inr (Some c)"
    and "offs = Some tracked" and "tracked (fst k) = Some t"
  shows "map_of (success_topic_accum_stats_map (snd (verify_request_step env offs r st))) k =
     (if (topic r, partition_id r) = k \<and> int (length (messages r)) = c
      then Some (Stats (offset (accum_at (snd st) k) + (c + t))
                   (message_count (accum_at (snd st) k) + c))
      else map_of (success_topic_accum_stats_map (snd st)) k)"
proof (cases st)
  case (Pair acc s)
  show ?thesis
  proof (cases "(topic r, partition_id r) = k")
    case True
    then have tk: "topic r = fst k" by auto
    show ?thesis
      using assms True Pair
      by (auto simp: verify_request_step_def tk accum_lookup_update_stats stats_add_Stats)
  next
    case False
    then show ?thesis
      using Pair
      by (auto simp: verify_request_step_def accum_lookup_update_stats
          split: option.splits sum.splits)
  qed
qed

lemma accum_at_Some:
  "map_of (success_topic_accum_stats_map s) k = Some a \<Longrightarrow> accum_at s k = a"
  by (simp add: accum_at_def)

lemma accum_at_cong:
  "map_of (success_topic_accum_stats_map s) k = map_of (success_topic_accum_stats_map s') k
   \<Longrightarrow> accum_at s k = accum_at s' k"
  by (simp add: accum_at_def)

lemma verify_fold_key:
  assumes "get_published_msg_count env (fst k) offs = Inr (Some c)"
    and "offs = Some tracked" and "tracked (fst k) = Some t"
  shows "map_of (success_topic_accum_stats_map (snd (fold (verify_request_step env offs) reqs st))) k =
     (if hidden_successes k c reqs = [] then map_of (success_topic_accum_stats_map (snd st)) k
      else Some (Stats (offset (accum_at (snd st) k)
                          + int (length (hidden_successes k c reqs)) * (c + t))
                   (message_count (accum_at (snd st) k)
                          + int (length (hidden_successes k c reqs)) * c)))"
proof (induction reqs arbitrary: st)
  case Nil
  show ?case by (simp add: hidden_successes_def)
next
  case (Cons r reqs)
  let ?st1 = "verify_request_step env offs r st"
  note step = verify_step_key [OF assms, of r st]
  show ?case
  proof (cases "(topic r, partition_id r) = k \<and> int (length (messages r)) = c")
    case False
    then have same: "map_of (success_topic_accum_stats_map (snd ?st1)) k
        = map_of (success_topic_accum_stats_map (snd st)) k"
      using step by auto
    have hs: "hidden_successes k c (r # reqs) = hidden_successes k c reqs"
      using False by (auto simp: hidden_successes_def)
    show ?thesis
      using Cons.IH [of ?st1] same accum_at_cong [OF same]
      by (simp add: hs)
  next
    case True
    then have now: "map_of (success_topic_accum_stats_map (snd ?st1)) k
        = Some (Stats (offset (accum_at (snd st) k) + (c + t))
                  (message_count (accum_at (snd st) k) + c))"
      using step by simp
    have hs: "hidden_successes k c (r # reqs) = r # hidden_successes k c reqs"
      using True by (auto simp: hidden_successes_def)
    show ?thesis
      using Cons.IH [of ?st1] now accum_at_Some [OF now]
      by (simp add: hs offset_Stats algebra_simps)
  qed
qed

lemma hidden_successes_disputed:
  assumes "success_responses responses k = None"
  shows "hidden_successes k c (filter (is_disputed responses) reqs) = hidden_successes k c reqs"
proof -
  have "\<And>r. (topic r, partition_id r) = k \<Longrightarrow> is_disputed responses r"
    using assms by (auto simp: is_disputed_def)
  then show ?thesis
    unfolding hidden_successes_def by (induction reqs) auto
qed

lemma accum_after_exact_once:
  assumes "publish_guarantee s = exact_once"
  shows "success_topic_accum_stats_map (update_unpublished_requests env responses offs s) =
     success_topic_accum_stats_map
       (snd (fold (verify_request_step env offs)
               (filter (is_disputed responses) (requests_to_be_sent s))
               ([], snd (update_success_requests_stats (requests_to_be_sent s) responses
                           (s\<lparr>success_topic_stats_map := []\<rparr>)))))"
  using assms
  by (simp add: update_unpublished_requests_def Let_def update_success_requests_stats_guarantee
      update_success_requests_stats_fst verify_failed_requests_def)

lemma example_run:
  "update_unpublished_requests example_env example_responses example_offsets
       (RetryHandler example_requests exact_once) = example_done"
  by (simp add: update_unpublished_requests_def RetryHandler_def example_env_def
      example_responses_def example_offsets_def example_requests_def example_done_def Let_def
      update_success_requests_stats_def success_responses_def is_success_response_def
      success_request_step_def update_success_topic_stats_def verify_failed_requests_def
      verify_request_step_def get_published_msg_count_def stats_add_def Stats_def)

lemma retried_run:
  "update_unpublished_requests example_env example_responses example_offsets retried_handler =
     \<lparr>initial_requests = example_requests,
      requests_to_be_sent = [],
      publish_guarantee = exact_once,
      success_topic_stats_map = [((''topicA'', 0), Stats 10 3), ((''topicA'', 1), Stats 9 2)],
      success_topic_accum_stats_map =
        [((''topicA'', 0), Stats 20 6), ((''topicA'', 1), Stats 109 6)]\<rparr>"
  by (simp add: update_unpublished_requests_def retried_handler_def example_env_def
      example_responses_def example_offsets_def example_requests_def Let_def
      update_success_requests_stats_def success_responses_def is_success_response_def
      success_request_step_def update_success_topic_stats_def verify_failed_requests_def
      verify_request_step_def get_published_msg_count_def stats_add_def Stats_def)

section \<open>The consumer\<close>

lemma map_of_fold_update:
  "map_of (fold (\<lambda>key m. AList.update key (f key) m) keys m0) k =
     (if k \<in> set keys then Some (f k) else map_of m0 k)"
  by (induction keys arbitrary: m0) (auto simp: update_conv')

lemma entry_step_pair: "entry_step (tp, po) = offsets_step tp po"
  by (rule ext) (simp add: entry_step_def)

lemma get_offsets_map_entries:
  "get_offsets_map_to_be_committed m cache = fold entry_step (entries m) (cache, [])"
proof -
  have inner: "\<And>tp pm st. fold entry_step (map (Pair tp) pm) st = fold (offsets_step tp) pm st"
    by (simp add: fold_map comp_def entry_step_pair)
  have "\<And>st. fold entry_step (entries m) st
      = fold (\<lambda>tpm. fold (offsets_step (fst tpm)) (snd tpm)) m st"
    by (induction m) (simp_all add: entries_def inner)
  then show ?thesis by (simp add: get_offsets_map_to_be_committed_def)
qed

lemma entry_step_cache:
  "cached_offset (fst (entry_step e st)) tp part =
     (if (tp, part) = entry_key e then Some (snd (snd e)) else cached_offset (fst st) tp part)"
  by (cases st; cases e)
     (auto simp: entry_step_def entry_key_def offsets_step_def Let_def cached_offset_def
        update_conv' split: option.splits)

lemma entry_step_filtered:
  "cached_offset (snd (entry_step e st)) tp part =
     (if (tp, part) = entry_key e \<and> cached_offset (fst st) tp part \<noteq> Some (snd (snd e))
      then Some (snd (snd e)) else cached_offset (snd st) tp part)"
  by (cases st; cases e)
     (auto simp: entry_step_def entry_key_def offsets_step_def Let_def cached_offset_def
        update_conv' split: option.splits)


lemma entry_map_Cons:
  "entry_map (e # es) k = (if k = entry_key e then Some (snd (snd e)) else entry_map es k)"
  by (simp add: entry_map_def)

lemma entry_map_None:
  "k \<notin> entry_key ` set es \<Longrightarrow> entry_map es k = None"
  by (simp add: entry_map_def map_of_eq_None_iff image_image)

lemma fold_entry_step_cache:
  "distinct (map entry_key es) \<Longrightarrow>
   cached_offset (fst (fold entry_step es st)) tp part =
     (case entry_map es (tp, part) of
        Some off \<Rightarrow> Some off
      | None \<Rightarrow> cached_offset (fst st) tp part)"
proof (induction es arbitrary: st)
  case Nil
  show ?case by (simp add: entry_map_def)
next
  case (Cons e es)
  then have d: "distinct (map entry_key es)" and fresh: "entry_key e \<notin> entry_key ` set es"
    by simp_all
  show ?case
    using Cons.IH [OF d, of "entry_step e st"] entry_map_None [OF fresh]
    by (auto simp: entry_step_cache entry_map_Cons split: option.splits)
qed

lemma fold_entry_step_filtered:
  "distinct (map entry_key es) \<Longrightarrow>
   cached_offset (snd (fold entry_step es st)) tp part =
     (case entry_map es (tp, part) of
        Some off \<Rightarrow> (if cached_offset (fst st) tp part \<noteq> Some off then Some off
                     else cached_offset (snd st) tp part)
      | None \<Rightarrow> cached_offset (snd st) tp part)"
proof (induction es arbitrary: st)
  case Nil
  show ?case by (simp add: entry_map_def)
next
  case (Cons e es)
  then have d: "distinct (map entry_key es)" and fresh: "entry_key e \<notin> entry_key ` set es"
    by simp_all
  show ?case
    using Cons.IH [OF d, of "entry_step e st"] entry_map_None [OF fresh]
    by (auto simp: entry_step_cache entry_step_filtered entry_map_Cons split: option.splits)
qed

lemma list_all_update:
  "list_all P al \<Longrightarrow> P (k, v) \<Longrightarrow> list_all P (AList.update k v al)"
  by (induction al) auto

lemma wf_offsets_map_update:
  assumes "wf_offsets_map f"
  shows "wf_offsets_map
           (AList.update tp (AList.update part off (case map_of f tp of None \<Rightarrow> [] | Some pm \<Rightarrow> pm)) f)"
proof -
  have inner: "distinct (map fst (case map_of f tp of None \<Rightarrow> [] | Some pm \<Rightarrow> pm))"
  proof (cases "map_of f tp")
    case None
    then show ?thesis by simp
  next
    case (Some pm)
    then have "(tp, pm) \<in> set f" by (rule map_of_SomeD)
    with assms have "distinct (map fst pm)"
      by (auto simp: wf_offsets_map_def list_all_iff)
    with Some show ?thesis by simp
  qed
  show ?thesis
    using assms inner
    by (simp add: wf_offsets_map_def distinct_update list_all_update)
qed

lemma entry_step_wf:
  "wf_offsets_map (snd st) \<Longrightarrow> wf_offsets_map (snd (entry_step e st))"
  by (cases st; cases e)
     (simp add: entry_step_def offsets_step_def Let_def wf_offsets_map_update)

lemma fold_entry_step_wf:
  "wf_offsets_map (snd st) \<Longrightarrow> wf_offsets_map (snd (fold entry_step es st))"
  by (induction es arbitrary: st) (simp_all add: entry_step_wf)

lemma entries_iff:
  assumes "wf_offsets_map m"
  shows "((tp, part, off) \<in> set (entries m)) = (cached_offset m tp part = Some off)"
proof
  assume "(tp, part, off) \<in> set (entries m)"
  then obtain pm where in_m: "(tp, pm) \<in> set m" and in_pm: "(part, off) \<in> set pm"
    by (auto simp: entries_def)
  from assms in_m have look: "map_of m tp = Some pm" and dpm: "distinct (map fst pm)"
    by (auto simp: wf_offsets_map_def list_all_iff)
  from dpm in_pm have "map_of pm part = Some off" by simp
  with look show "cached_offset m tp part = Some off" by (simp add: cached_offset_def)
next
  assume "cached_offset m tp part = Some off"
  then obtain pm where "map_of m tp = Some pm" and "map_of pm part = Some off"
    by (auto simp: cached_offset_def split: option.splits)
  then have "(tp, pm) \<in> set m" and "(part, off) \<in> set pm"
    by (auto dest: map_of_SomeD)
  then show "(tp, part, off) \<in> set (entries m)"
    by (force simp: entries_def)
qed


lemma entries_topic: "e \<in> set (entries m) \<Longrightarrow> fst e \<in> fst ` set m"
  by (force simp: entries_def)

lemma distinct_topic_entries:
  "distinct (map fst pm) \<Longrightarrow> distinct (map entry_key (map (Pair tp) pm))"
  by (simp add: comp_def entry_key_def distinct_map inj_on_def)

lemma distinct_entries:
  "wf_offsets_map m \<Longrightarrow> distinct (map entry_key (entries m))"
proof (induction m)
  case Nil
  show ?case by (simp add: entries_def)
next
  case (Cons tpm m)
  obtain tp pm where tpm: "tpm = (tp, pm)" by (cases tpm)
  from Cons.prems tpm have wf: "wf_offsets_map m" and dpm: "distinct (map fst pm)"
    and fresh: "tp \<notin> fst ` set m"
    by (simp_all add: wf_offsets_map_def)
  have split: "entries (tpm # m) = map (Pair tp) pm @ entries m"
    by (simp add: entries_def tpm)
  have disjoint: "entry_key ` set (map (Pair tp) pm) \<inter> entry_key ` set (entries m) = {}"
  proof -
    have "\<And>e. e \<in> set (entries m) \<Longrightarrow> fst (entry_key e) \<noteq> tp"
      using fresh entries_topic [of _ m] by (auto simp: entry_key_def)
    then show ?thesis by (fastforce simp: entry_key_def)
  qed
  show ?case
    using Cons.IH [OF wf] distinct_topic_entries [OF dpm, of tp] disjoint
    by (simp only: split map_append distinct_append set_map) 
qed

lemma entry_map_entries:
  assumes "wf_offsets_map m"
  shows "entry_map (entries m) (tp, part) = cached_offset m tp part"
proof -
  have d: "distinct (map fst (map (\<lambda>e. (entry_key e, snd (snd e))) (entries m)))"
    using distinct_entries [OF assms] by (simp add: comp_def)
  have "\<And>off. (entry_map (entries m) (tp, part) = Some off) = (cached_offset m tp part = Some off)"
    unfolding entry_map_def
    by (simp only: map_of_eq_Some_iff [OF d] entries_iff [OF assms, symmetric])
       (force simp: entry_key_def)
  then show ?thesis
    by (cases "cached_offset m tp part") (auto simp: option.exhaust_sel intro: option.expand)
qed

lemma payload_entries:
  "map payload_entry (offset_commit_request_list f) = entries f"
  by (simp add: offset_commit_request_list_def entries_def payload_entry_def map_concat comp_def)

lemma cached_offset_Nil: "cached_offset [] tp part = None"
  by (simp add: cached_offset_def)

lemma get_offsets_map_cache:
  assumes "wf_offsets_map m"
  shows "cached_offset (fst (get_offsets_map_to_be_committed m cache)) tp part =
     (case cached_offset m tp part of
        Some off \<Rightarrow> Some off | None \<Rightarrow> cached_offset cache tp part)"
  using fold_entry_step_cache [OF distinct_entries [OF assms], of "(cache, [])" tp part]
  by (simp add: get_offsets_map_entries entry_map_entries [OF assms] cong: option.case_cong)

lemma get_offsets_map_filtered:
  assumes "wf_offsets_map m"
  shows "set (entries (snd (get_offsets_map_to_be_committed m cache))) =
     {e \<in> set (entries m). cached_offset cache (fst e) (fst (snd e)) \<noteq> Some (snd (snd e))}"
proof -
  let ?f = "snd (get_offsets_map_to_be_committed m cache)"
  have wf: "wf_offsets_map ?f"
    using fold_entry_step_wf [of "(cache, [])" "entries m"]
    by (simp add: get_offsets_map_entries wf_offsets_map_def)
  have look: "\<And>tp part. cached_offset ?f tp part =
      (case cached_offset m tp part of
         Some off \<Rightarrow> (if cached_offset cache tp part \<noteq> Some off then Some off else None)
       | None \<Rightarrow> None)"
    using fold_entry_step_filtered [OF distinct_entries [OF assms], of "(cache, [])"]
    by (simp add: get_offsets_map_entries entry_map_entries [OF assms] cached_offset_Nil
        cong: option.case_cong if_cong)
  show ?thesis
  proof (rule set_eqI)
    fix e :: "string \<times> int \<times> int"
    obtain tp part off where e: "e = (tp, part, off)" by (cases e)
    show "(e \<in> set (entries ?f)) =
      (e \<in> {e \<in> set (entries m). cached_offset cache (fst e) (fst (snd e)) \<noteq> Some (snd (snd e))})"
      unfolding e
      by (simp only: entries_iff [OF wf] entries_iff [OF assms] look mem_Collect_eq fst_conv snd_conv)
         (auto split: option.splits)
  qed
qed

lemma commit_offsets_cache:
  assumes "wf_offsets_map m"
  shows "cached_offset (topic_to_partition_offset_map_cache (commit_offsets m s)) tp part =
     (case cached_offset m tp part of
        Some off \<Rightarrow> Some off
      | None \<Rightarrow> cached_offset (topic_to_partition_offset_map_cache s) tp part)"
  using get_offsets_map_cache [OF assms, of "topic_to_partition_offset_map_cache s" tp part]
  by (simp add: commit_offsets_def Let_def send_offset_commit_requests_def)

lemma commit_offsets_sent:
  assumes "wf_offsets_map m"
  shows "\<exists>payloads. set (map payload_entry payloads)
             = set (changed_entries m (topic_to_partition_offset_map_cache s))
         \<and> sent_offset_commit_requests (commit_offsets m s) =
             sent_offset_commit_requests s
               @ (if changed_entries m (topic_to_partition_offset_map_cache s) = [] then []
                  else [payloads])"
proof -
  let ?f = "snd (get_offsets_map_to_be_committed m (topic_to_partition_offset_map_cache s))"
  let ?payloads = "offset_commit_request_list ?f"
  have sets: "set (map payload_entry ?payloads)
      = set (changed_entries m (topic_to_partition_offset_map_cache s))"
    using get_offsets_map_filtered [OF assms, of "topic_to_partition_offset_map_cache s"]
    by (simp only: payload_entries changed_entries_def set_filter)
  then have "(?payloads = []) = (changed_entries m (topic_to_partition_offset_map_cache s) = [])"
    by (metis map_is_Nil_conv set_empty)
  then have "sent_offset_commit_requests (commit_offsets m s) =
             sent_offset_commit_requests s
               @ (if changed_entries m (topic_to_partition_offset_map_cache s) = [] then []
                  else [?payloads])"
    by (simp add: commit_offsets_def Let_def send_offset_commit_requests_def)
  with sets show ?thesis by blast
qed

lemma changed_entries_after_commit:
  assumes "wf_offsets_map m"
  shows "changed_entries m (topic_to_partition_offset_map_cache (commit_offsets m s)) = []"
proof -
  have "\<And>e. e \<in> set (entries m) \<Longrightarrow>
      cached_offset (topic_to_partition_offset_map_cache (commit_offsets m s)) (fst e) (fst (snd e))
        = Some (snd (snd e))"
  proof -
    fix e assume "e \<in> set (entries m)"
    then have "cached_offset m (fst e) (fst (snd e)) = Some (snd (snd e))"
      using entries_iff [OF assms, of "fst e" "fst (snd e)" "snd (snd e)"] by simp
    then show "cached_offset (topic_to_partition_offset_map_cache (commit_offsets m s))
        (fst e) (fst (snd e)) = Some (snd (snd e))"
      by (simp add: commit_offsets_cache [OF assms])
  qed
  then show ?thesis by (simp add: changed_entries_def)
qed

lemma changed_entries_same_keys:
  assumes "wf_offsets_map m" and "wf_offsets_map m'"
    and keys: "\<forall>e\<in>set (entries m'). entry_key e \<in> entry_key ` set (entries m)"
  shows "set (changed_entries m' (topic_to_partition_offset_map_cache (commit_offsets m s)))
     = set (entries m') - set (entries m)"
proof (rule set_eqI)
  fix e :: "string \<times> int \<times> int"
  obtain tp part off where e: "e = (tp, part, off)" by (cases e)
  show "(e \<in> set (changed_entries m' (topic_to_partition_offset_map_cache (commit_offsets m s))))
      = (e \<in> set (entries m') - set (entries m))"
  proof (cases "e \<in> set (entries m')")
    case False
    then show ?thesis by (simp add: changed_entries_def)
  next
    case True
    with keys obtain e0 where e0: "e0 \<in> set (entries m)" and k: "entry_key e0 = entry_key e"
      by force
    obtain off0 where "e0 = (tp, part, off0)"
      using k e by (cases e0) (simp add: entry_key_def)
    with e0 have c0: "cached_offset m tp part = Some off0"
      using entries_iff [OF assms(1)] by simp
    have "(e \<in> set (entries m)) = (off0 = off)"
      using c0 entries_iff [OF assms(1), of tp part off] e by auto
    with True c0 e show ?thesis
      by (auto simp: changed_entries_def commit_offsets_cache [OF assms(1)])
  qed
qed

lemma commit_example_first:
  "commit_offsets [(''t'', [(0, 5)])] fresh_consumer =
     fresh_consumer\<lparr>topic_to_partition_offset_map_cache := [(''t'', [(0, 5)])],
        sent_offset_commit_requests := [[OffsetCommitRequest ''t'' 0 5 None]]\<rparr>"
  by (simp add: commit_offsets_def get_offsets_map_to_be_committed_def offsets_step_def
      offset_commit_request_list_def send_offset_commit_requests_def fresh_consumer_def Let_def)

section \<open>Properties of the retry handler\<close>

text \<open>
  Claim C10. Every call to \<open>update_unpublished_requests\<close>, in either mode, leaves in
  \<open>requests_to_be_sent\<close> an order-preserving subsequence of the list it started
  from: nothing is added, nothing is duplicated, nothing is reordered.
\<close>

theorem requests_to_be_sent_subseq:
  "subseq (requests_to_be_sent (update_unpublished_requests env responses offs s))
     (requests_to_be_sent s)"
proof (cases "publish_guarantee s = exact_once")
  case True
  have "subseq (filter (retry_decision env offs)
                  (filter (is_disputed responses) (requests_to_be_sent s)))
          (filter (is_disputed responses) (requests_to_be_sent s))"
    by (rule subseq_filter_left)
  also have "subseq \<dots> (requests_to_be_sent s)"
    by (rule subseq_filter_left)
  finally show ?thesis using True by (simp add: requests_to_be_sent_after)
next
  case False
  then show ?thesis by (simp add: requests_to_be_sent_after)
qed

text \<open>
  Claim C7. The cumulative statistics never shrink: a key that has an entry before a call
  to \<open>update_unpublished_requests\<close> has one after it, whose message count is at
  least the one before, whatever the mode, the responses, the tracked offsets and the
  broker's answers are.
\<close>

theorem accum_stats_never_shrink:
  assumes "map_of (success_topic_accum_stats_map s) k = Some st"
  shows "\<exists>st'. map_of (success_topic_accum_stats_map
                   (update_unpublished_requests env responses offs s)) k = Some st'
               \<and> message_count st \<le> message_count st'"
proof -
  let ?cleared = "s\<lparr>success_topic_stats_map := []\<rparr>"
  let ?r1 = "update_success_requests_stats (requests_to_be_sent ?cleared) responses ?cleared"
  have a0: "map_of (success_topic_accum_stats_map (snd ([]::request list, ?cleared))) k = Some st"
    using assms by simp
  from success_fold_keeps [OF a0]
  obtain st1 where s1: "map_of (success_topic_accum_stats_map (snd ?r1)) k = Some st1"
    and le1: "message_count st \<le> message_count st1"
    unfolding update_success_requests_stats_def by blast
  show ?thesis
  proof (cases "publish_guarantee (snd ?r1) = exact_once")
    case False
    with s1 le1 show ?thesis by (simp add: update_unpublished_requests_def Let_def)
  next
    case True
    have a1: "map_of (success_topic_accum_stats_map (snd ([]::request list, snd ?r1))) k = Some st1"
      using s1 by simp
    from verify_fold_keeps [OF a1, of env offs "fst ?r1"]
    obtain st' where "map_of (success_topic_accum_stats_map
        (snd (verify_failed_requests env (fst ?r1) offs (snd ?r1)))) k = Some st'"
      and "message_count st1 \<le> message_count st'"
      unfolding verify_failed_requests_def by blast
    with True le1 show ?thesis by (auto simp: update_unpublished_requests_def Let_def)
  qed
qed

theorem accum_stats_never_shrink_witness:
  "map_of (success_topic_accum_stats_map retried_handler) (''topicA'', 0) = Some (Stats 10 3)
   \<and> requests_to_be_sent retried_handler = example_requests
   \<and> map_of (success_topic_accum_stats_map
               (update_unpublished_requests example_env example_responses example_offsets
                  retried_handler)) (''topicA'', 0) = Some (Stats 20 6)
   \<and> message_count (Stats 10 3) \<le> message_count (Stats 20 6)"
proof -
  have h: "map_of (success_topic_accum_stats_map retried_handler) (''topicA'', 0) = Some (Stats 10 3)"
    by (simp add: retried_handler_def)
  have p: "requests_to_be_sent retried_handler = example_requests"
    by (simp add: retried_handler_def)
  have after_call: "map_of (success_topic_accum_stats_map
               (update_unpublished_requests example_env example_responses example_offsets
                  retried_handler)) (''topicA'', 0) = Some (Stats 20 6)"
    by (simp add: retried_run)
  from accum_stats_never_shrink [OF h, of example_env example_responses example_offsets] after_call
  have "message_count (Stats 10 3) \<le> message_count (Stats 20 6)" by simp
  with h p after_call show ?thesis by simp
qed

text \<open>
  Claim C8. A handler just constructed, all of whose requests have a success response
  (not an exception, error code 0, same topic and partition): after one call to
  \<open>update_unpublished_requests\<close> nothing is left to send and the total published
  message count is the sum of the message counts of all the requests.
\<close>

theorem all_success_round:
  assumes "\<forall>r\<in>set requests. \<exists>resp\<in>set responses.
             is_success_response resp \<and> resp_topic resp = topic r \<and> resp_partition resp = partition_id r"
  shows "requests_to_be_sent
           (update_unpublished_requests env responses offs (RetryHandler requests guarantee)) = []
       \<and> total_published_message_count
           (update_unpublished_requests env responses offs (RetryHandler requests guarantee)) =
         (\<Sum>r\<leftarrow>requests. int (length (messages r)))"
proof -
  let ?h = "RetryHandler requests guarantee"
  let ?cleared = "?h\<lparr>success_topic_stats_map := []\<rparr>"
  let ?sr = "success_responses responses"
  have all: "\<forall>r\<in>set requests. ?sr (topic r, partition_id r) \<noteq> None"
    using assms by (simp only: success_responses_defined) auto
  then have nodisp: "filter (is_disputed responses) requests = []"
    by (simp add: is_disputed_def)
  have rts: "requests_to_be_sent ?h = requests" by (simp add: RetryHandler_def)
  have none_left: "requests_to_be_sent (update_unpublished_requests env responses offs ?h) = []"
    by (simp add: requests_to_be_sent_after rts nodisp)
  have fst1: "fst (update_success_requests_stats requests responses ?cleared) = []"
    by (simp add: update_success_requests_stats_fst nodisp)
  have tot1: "total_published_message_count
                (snd (update_success_requests_stats requests responses ?cleared))
      = (\<Sum>r\<leftarrow>requests. int (length (messages r)))"
  proof -
    have "total_published_message_count (snd ([]::request list, ?cleared)) = 0"
      by (simp add: total_published_message_count_def RetryHandler_def)
    with success_fold_total [OF all, of "([], ?cleared)"] show ?thesis
      unfolding update_success_requests_stats_def by simp
  qed
  have "total_published_message_count (update_unpublished_requests env responses offs ?h)
      = (\<Sum>r\<leftarrow>requests. int (length (messages r)))"
    using fst1 tot1
    by (simp add: update_unpublished_requests_def Let_def rts verify_failed_requests_def
        total_ignores_requests)
  with none_left show ?thesis by simp
qed

theorem all_success_round_witness:
  "list_all (\<lambda>r. \<exists>resp\<in>set all_success_responses.
       is_success_response resp \<and> resp_topic resp = topic r \<and> resp_partition resp = partition_id r)
     example_requests
   \<and> requests_to_be_sent
        (update_unpublished_requests example_env all_success_responses example_offsets
           (RetryHandler example_requests exact_once)) = []
   \<and> total_published_message_count
        (update_unpublished_requests example_env all_success_responses example_offsets
           (RetryHandler example_requests exact_once)) = 5"
proof -
  have h: "\<forall>r\<in>set example_requests. \<exists>resp\<in>set all_success_responses.
       is_success_response resp \<and> resp_topic resp = topic r \<and> resp_partition resp = partition_id r"
    by (simp add: example_requests_def all_success_responses_def is_success_response_def)
  have "(\<Sum>r\<leftarrow>example_requests. int (length (messages r))) = 5"
    by (simp add: example_requests_def)
  with all_success_round [OF h, of example_env example_offsets exact_once] h
  show ?thesis by (simp add: list_all_iff)
qed

text \<open>
  Claim C4. In every state of the handler, \<open>has_unpublished_request\<close> is false if and
  only if every (topic, partition) of the initial requests is a key of the cumulative
  statistics; that is, it is true exactly when the set of the initial pairs is not a
  subset of the set of keys.
\<close>

theorem has_unpublished_request_iff:
  "(\<not> has_unpublished_request s) =
     (\<forall>r\<in>set (initial_requests s).
        (topic r, partition_id r) \<in> dom (map_of (success_topic_accum_stats_map s)))
   \<and> has_unpublished_request s =
     (\<not> (\<lambda>r. (topic r, partition_id r)) ` set (initial_requests s)
          \<subseteq> dom (map_of (success_topic_accum_stats_map s)))"
  by (auto simp: has_unpublished_request_def Let_def dom_map_of_conv_image_fst)

theorem has_unpublished_request_iff_witness:
  "\<not> has_unpublished_request example_done
   \<and> list_all (\<lambda>r. (topic r, partition_id r)
                       \<in> dom (map_of (success_topic_accum_stats_map example_done)))
         (initial_requests example_done)
   \<and> has_unpublished_request (RetryHandler example_requests exact_once)
   \<and> \<not> (\<forall>r\<in>set (initial_requests (RetryHandler example_requests exact_once)).
        (topic r, partition_id r)
          \<in> dom (map_of (success_topic_accum_stats_map (RetryHandler example_requests exact_once))))"
proof -
  have a: "\<not> has_unpublished_request example_done"
    by (simp add: has_unpublished_request_def example_done_def example_requests_def)
  have b: "has_unpublished_request (RetryHandler example_requests exact_once)"
    by (simp add: has_unpublished_request_def RetryHandler_def example_requests_def)
  from a b has_unpublished_request_iff [of example_done]
    has_unpublished_request_iff [of "RetryHandler example_requests exact_once"]
  show ?thesis by (simp only: list_all_iff) blast
qed

text \<open>
  Claim C3. In exact-once mode, take a pending request without a success response.
  If its watermark query raises \<open>UnknownTopic\<close> or \<open>UnknownPartitions\<close>, it is in
  the next retry set if and only if loading the metadata of its topic returns or raises
  \<open>LeaderNotAvailableError\<close>. If the query raises anything else, the request is not in
  the next retry set. No exception leaves \<open>update_unpublished_requests\<close> in either
  case: the model, where every handler of the source is a branch, always yields a state.
\<close>

theorem unknown_topic_retry_iff_metadata:
  assumes "publish_guarantee s = exact_once"
    and "r \<in> set (requests_to_be_sent s)"
    and "is_disputed responses r"
  shows "(get_published_msg_count env (topic r) offs = Inl UnknownTopic \<or>
          get_published_msg_count env (topic r) offs = Inl UnknownPartitions \<longrightarrow>
            (r \<in> set (requests_to_be_sent (update_unpublished_requests env responses offs s)) \<longleftrightarrow>
             load_metadata_for_topics env (topic r) = Inr () \<or>
             load_metadata_for_topics env (topic r) = Inl LeaderNotAvailableError))
       \<and> (\<forall>e. get_published_msg_count env (topic r) offs = Inl e \<and>
               e \<noteq> UnknownTopic \<and> e \<noteq> UnknownPartitions \<longrightarrow>
            r \<notin> set (requests_to_be_sent (update_unpublished_requests env responses offs s)))"
  using assms
  by (auto simp: requests_to_be_sent_after retry_decision_def try_load_topic_metadata_def
      split: sum.splits if_splits)

theorem unknown_topic_retry_iff_metadata_witness:
  "publish_guarantee (RetryHandler example_requests exact_once) = exact_once
   \<and> example_requests ! 1 \<in> set (requests_to_be_sent (RetryHandler example_requests exact_once))
   \<and> is_disputed example_responses (example_requests ! 1)
   \<and> get_published_msg_count creating_topic_env (topic (example_requests ! 1)) example_offsets
       = Inl UnknownTopic
   \<and> load_metadata_for_topics creating_topic_env (topic (example_requests ! 1))
       = Inl LeaderNotAvailableError
   \<and> example_requests ! 1 \<in> set (requests_to_be_sent
        (update_unpublished_requests creating_topic_env example_responses example_offsets
           (RetryHandler example_requests exact_once)))
   \<and> get_published_msg_count failing_env (topic (example_requests ! 1)) example_offsets
       = Inl OtherException
   \<and> example_requests ! 1 \<notin> set (requests_to_be_sent
        (update_unpublished_requests failing_env example_responses example_offsets
           (RetryHandler example_requests exact_once)))"
proof -
  let ?h = "RetryHandler example_requests exact_once"
  let ?r = "example_requests ! 1"
  have g: "publish_guarantee ?h = exact_once" by (simp add: RetryHandler_def)
  have p: "?r \<in> set (requests_to_be_sent ?h)"
    by (simp add: RetryHandler_def example_requests_def)
  have d: "is_disputed example_responses ?r"
    by (simp add: is_disputed_def success_responses_def example_responses_def
        example_requests_def is_success_response_def)
  have w1: "get_published_msg_count creating_topic_env (topic ?r) example_offsets = Inl UnknownTopic"
    by (simp add: get_published_msg_count_def creating_topic_env_def)
  have m1: "load_metadata_for_topics creating_topic_env (topic ?r) = Inl LeaderNotAvailableError"
    by (simp add: creating_topic_env_def)
  have w2: "get_published_msg_count failing_env (topic ?r) example_offsets = Inl OtherException"
    by (simp add: get_published_msg_count_def failing_env_def)
  from unknown_topic_retry_iff_metadata [OF g p d, of creating_topic_env example_offsets] w1 m1
  have in1: "?r \<in> set (requests_to_be_sent
        (update_unpublished_requests creating_topic_env example_responses example_offsets ?h))"
    by simp
  from unknown_topic_retry_iff_metadata [OF g p d, of failing_env example_offsets] w2
  have out2: "?r \<notin> set (requests_to_be_sent
        (update_unpublished_requests failing_env example_responses example_offsets ?h))"
    by simp
  from g p d w1 m1 in1 w2 out2 show ?thesis by blast
qed




section \<open>Properties of the consumer\<close>

text \<open>
  Claim C1. \<open>commit_messages\<close> should hand to the commit step, for each topic and
  partition, the highest offset among the messages plus one, in whatever order the
  messages come. The loop compares each offset with the value it stored, which is already
  an offset plus one: for two messages of one partition with offsets 5 and then 3 it
  stores 6 and then \<open>max 3 6 + 1 = 7\<close>, and 7 (not 6) is sent to the broker.
\<close>

theorem commit_messages_lower_offset_after_higher:
  "messages_offsets_map [message_at ''t'' 0 5, message_at ''t'' 0 3] = [(''t'', [(0, 7)])]
   \<and> sent_offset_commit_requests
        (commit_messages [message_at ''t'' 0 5, message_at ''t'' 0 3] fresh_consumer)
       = [[OffsetCommitRequest ''t'' 0 7 None]]
   \<and> Max (set (map (\<lambda>m. kp_offset (kafka_position_info m))
                   [message_at ''t'' 0 5, message_at ''t'' 0 3])) + 1 = 6"
proof -
  have m: "messages_offsets_map [message_at ''t'' 0 5, message_at ''t'' 0 3] = [(''t'', [(0, 7)])]"
    by (simp add: messages_offsets_map_def commit_messages_step_def message_at_def Let_def)
  have s: "sent_offset_commit_requests (commit_offsets [(''t'', [(0, 7)])] fresh_consumer)
       = [[OffsetCommitRequest ''t'' 0 7 None]]"
    by (simp add: commit_offsets_def get_offsets_map_to_be_committed_def offsets_step_def
        offset_commit_request_list_def send_offset_commit_requests_def fresh_consumer_def Let_def)
  have x: "Max (set (map (\<lambda>m. kp_offset (kafka_position_info m))
                   [message_at ''t'' 0 5, message_at ''t'' 0 3])) + 1 = 6"
    by (simp add: message_at_def)
  from m s x show ?thesis by (simp add: commit_messages_def)
qed

text \<open>
  Claim C6. As stated the claim fails: the user's callback runs inside the handler, after
  the reset, and what it does to the consumer stays. With a callback that commits an
  offset for an assigned partition, the cache holds that offset when the handler returns
  and a commit has gone to the broker.
\<close>

theorem post_rebalance_committing_callback_counterexample:
  "topic_to_partition_offset_map_cache
      (snd (apply_post_rebalance_callback_to_partition (Some committing_callback)
              [(''new_topic'', [2, 3])] example_consumer))
     = [(''new_topic'', [(2, 11)])]
   \<and> topic_to_partition_offset_map_cache
      (snd (apply_post_rebalance_callback_to_partition (Some committing_callback)
              [(''new_topic'', [2, 3])] example_consumer)) \<noteq> []
   \<and> sent_offset_commit_requests
      (snd (apply_post_rebalance_callback_to_partition (Some committing_callback)
              [(''new_topic'', [2, 3])] example_consumer))
     = [[OffsetCommitRequest ''new_topic'' 2 11 None]]"
  by (simp add: apply_post_rebalance_callback_to_partition_def Let_def committing_callback_def
      reset_topic_to_partition_offset_cache_def example_consumer_def
      commit_offsets_def get_offsets_map_to_be_committed_def offsets_step_def
      offset_commit_request_list_def send_offset_commit_requests_def)

text \<open>
  Claim C6, amended. Whatever the consumer's state and the assignment given to the
  post-rebalance handler, the handler first brings the consumer to a state \<open>s2\<close> where
  the offset cache is empty and \<open>topic_to_partition_map\<close> has the topics of the
  assignment, each with its partitions, and nothing else (it is a function of the
  assignment alone); nothing is sent to the broker on the way. The user's callback, when
  there is one, is then called with the assignment on the consumer in state \<open>s2\<close>; its
  result is returned and the consumer is left as the callback leaves it. The handler
  leaves the consumer in state \<open>s2\<close> when there is no callback or the callback leaves
  the consumer as it found it.
\<close>

theorem post_rebalance_resets:
  "\<exists>s2. topic_to_partition_offset_map_cache s2 = []
     \<and> map_of (topic_to_partition_map s2) = (\<lambda>key. map_option Some (map_of partitions key))
     \<and> fst ` set (topic_to_partition_map s2) = fst ` set partitions
     \<and> sent_offset_commit_requests s2 = sent_offset_commit_requests s
     \<and> apply_post_rebalance_callback_to_partition callback partitions s =
         (case callback of
            None \<Rightarrow> (None, s2)
          | Some cb \<Rightarrow> (Some (fst (cb partitions s2)), snd (cb partitions s2)))
     \<and> (callback = None \<longrightarrow>
          snd (apply_post_rebalance_callback_to_partition callback partitions s) = s2)
     \<and> (\<forall>cb. callback = Some cb \<and> snd (cb partitions s2) = s2 \<longrightarrow>
          snd (apply_post_rebalance_callback_to_partition callback partitions s) = s2)"
proof -
  let ?new = "fold (\<lambda>key m. AList.update key (map_of partitions key) m) (map fst partitions) []"
  let ?s2 = "reset_topic_to_partition_offset_cache (s\<lparr>topic_to_partition_map := ?new\<rparr>)"
  have look: "map_of ?new = (\<lambda>key. map_option Some (map_of partitions key))"
  proof
    fix key
    show "map_of ?new key = map_option Some (map_of partitions key)"
    proof (cases "key \<in> fst ` set partitions")
      case True
      then obtain v where "map_of partitions key = Some v"
        by (metis domD dom_map_of_conv_image_fst)
      with True show ?thesis by (simp add: map_of_fold_update)
    next
      case False
      then have "map_of partitions key = None" by (simp add: map_of_eq_None_iff)
      with False show ?thesis by (simp add: map_of_fold_update)
    qed
  qed
  have "dom (map_of ?new) = dom (map_of partitions)"
    by (auto simp: look)
  then have keys: "fst ` set ?new = fst ` set partitions"
    by (simp only: dom_map_of_conv_image_fst)
  have fields: "topic_to_partition_offset_map_cache ?s2 = []"
    "topic_to_partition_map ?s2 = ?new"
    "sent_offset_commit_requests ?s2 = sent_offset_commit_requests s"
    by (simp_all add: reset_topic_to_partition_offset_cache_def)
  have run: "apply_post_rebalance_callback_to_partition callback partitions s =
         (case callback of
            None \<Rightarrow> (None, ?s2)
          | Some cb \<Rightarrow> (Some (fst (cb partitions ?s2)), snd (cb partitions ?s2)))"
    by (simp add: apply_post_rebalance_callback_to_partition_def Let_def
        split: option.splits prod.splits)
  have none: "callback = None \<longrightarrow>
      snd (apply_post_rebalance_callback_to_partition callback partitions s) = ?s2"
    using run by (cases callback) simp_all
  have unchanged: "\<forall>cb. callback = Some cb \<and> snd (cb partitions ?s2) = ?s2 \<longrightarrow>
      snd (apply_post_rebalance_callback_to_partition callback partitions s) = ?s2"
    using run by (cases callback) simp_all
  have new_map: "map_of (topic_to_partition_map ?s2) =
      (\<lambda>key. map_option Some (map_of partitions key))"
    using look by (simp only: fields)
  have new_keys: "fst ` set (topic_to_partition_map ?s2) = fst ` set partitions"
    using keys by (simp only: fields)
  show ?thesis
    by (intro exI [of _ ?s2] conjI) (rule fields(1) new_map new_keys fields(3) run none unchanged)+
qed

theorem post_rebalance_resets_witness:
  "apply_post_rebalance_callback_to_partition (Some reading_callback)
      [(''new_topic'', [2, 3])] example_consumer
     = (Some [],
        example_consumer\<lparr>topic_to_partition_map := [(''new_topic'', Some [2, 3])],
           topic_to_partition_offset_map_cache := []\<rparr>)
   \<and> snd (apply_post_rebalance_callback_to_partition
             (None :: ((string \<times> int list) list \<Rightarrow> consumer \<Rightarrow> unit \<times> consumer) option)
             [(''new_topic'', [2, 3])] example_consumer)
     = example_consumer\<lparr>topic_to_partition_map := [(''new_topic'', Some [2, 3])],
           topic_to_partition_offset_map_cache := []\<rparr>"
  using post_rebalance_resets [of "[(''new_topic'', [2, 3])]" example_consumer "Some reading_callback"]
  by (simp add: apply_post_rebalance_callback_to_partition_def Let_def reading_callback_def
      reset_topic_to_partition_offset_cache_def)

text \<open>
  Claim C9. \<open>__exit__\<close> always runs \<open>stop\<close>: the state it leaves is the one
  \<open>stop\<close> leaves, with the failure logged when \<open>stop\<close> raised. It never returns
  a true value. When \<open>stop\<close> raises while the body's exception is propagating, the
  failure is logged and the body's exception propagates; when \<open>stop\<close> raises and the
  body raised nothing, the exception of \<open>stop\<close> propagates; a body's exception always
  propagates.
\<close>

theorem exit_stops_and_keeps_body_exception:
  "(let r = exit_consumer stop_impl close_impl exc_type s;
        stopped = stop stop_impl close_impl s
    in snd r =
         (if fst stopped = None then snd stopped
          else (snd stopped)\<lparr>logged_exceptions :=
                  logged_exceptions (snd stopped) @ [''Failed to stop the Consumer.'']\<rparr>)
     \<and> fst r \<noteq> Returns True
     \<and> (\<forall>e body. fst stopped = Some e \<and> exc_type = Some body \<longrightarrow>
           fst r = Returns False \<and> with_propagates exc_type (fst r) = Some body)
     \<and> (\<forall>e. fst stopped = Some e \<and> exc_type = None \<longrightarrow>
           fst r = Raises e \<and> with_propagates exc_type (fst r) = Some e)
     \<and> (\<forall>body. exc_type = Some body \<longrightarrow> with_propagates exc_type (fst r) = Some body))"
  by (auto simp: exit_consumer_def with_propagates_def Let_def split: option.splits prod.splits)

theorem exit_stops_and_keeps_body_exception_witness:
  "fst (stop (Some OtherException) None example_consumer) = Some OtherException
   \<and> with_propagates (Some UnknownTopic)
        (fst (exit_consumer (Some OtherException) None (Some UnknownTopic) example_consumer))
       = Some UnknownTopic
   \<and> logged_exceptions
        (snd (exit_consumer (Some OtherException) None (Some UnknownTopic) example_consumer))
       = [''Failed to stop the Consumer.'']
   \<and> with_propagates None
        (fst (exit_consumer (Some OtherException) None None example_consumer))
       = Some OtherException"
proof -
  have st: "stop (Some OtherException) None example_consumer = (Some OtherException, example_consumer)"
    by (simp add: stop_def example_consumer_def)
  have lg: "logged_exceptions example_consumer = []"
    by (simp add: example_consumer_def)
  let ?with_body = "exit_consumer (Some OtherException) None (Some UnknownTopic) example_consumer"
  let ?without = "exit_consumer (Some OtherException) None None example_consumer"
  from exit_stops_and_keeps_body_exception
         [of "Some OtherException" None "Some UnknownTopic" example_consumer] st
  have a: "snd ?with_body =
        example_consumer\<lparr>logged_exceptions :=
           logged_exceptions example_consumer @ [''Failed to stop the Consumer.'']\<rparr>"
    and b: "with_propagates (Some UnknownTopic) (fst ?with_body) = Some UnknownTopic"
    by (simp_all add: Let_def with_propagates_def)
  from exit_stops_and_keeps_body_exception
         [of "Some OtherException" None None example_consumer] st
  have c: "with_propagates None (fst ?without) = Some OtherException"
    by (simp add: Let_def with_propagates_def)
  have "logged_exceptions (snd ?with_body) = [''Failed to stop the Consumer.'']"
    by (simp only: a) (simp add: lg)
  with st b c show ?thesis by simp
qed

text \<open>
  Claim C5. As stated the claim fails: \<open>_send_offset_commit_requests\<close> calls the
  broker only for a non-empty list, so two calls of \<open>commit_offsets\<close> with a map
  without entries, or with a map whose entries are all cached already, issue no broker
  call at all.
\<close>

theorem commit_offsets_twice_counterexample:
  "sent_offset_commit_requests fresh_consumer = []
   \<and> sent_offset_commit_requests (commit_offsets [] (commit_offsets [] fresh_consumer)) = []
   \<and> length (sent_offset_commit_requests (commit_offsets [] (commit_offsets [] fresh_consumer)))
       \<noteq> length (sent_offset_commit_requests fresh_consumer) + 1
   \<and> sent_offset_commit_requests example_consumer = []
   \<and> sent_offset_commit_requests
        (commit_offsets [(''old_topic'', [(0, 5)])]
           (commit_offsets [(''old_topic'', [(0, 5)])] example_consumer)) = []"
  by (simp add: commit_offsets_def get_offsets_map_to_be_committed_def offsets_step_def
      offset_commit_request_list_def send_offset_commit_requests_def fresh_consumer_def
      example_consumer_def Let_def)

text \<open>
  Claim C5, amended. For well-formed maps \<open>m\<close> and \<open>m'\<close> and any consumer: the
  second of two calls \<open>commit_offsets m\<close> in a row issues no broker call; the first
  issues none when every entry of \<open>m\<close> is cached already and otherwise exactly one,
  whose payloads are the entries of \<open>m\<close> that are not cached with that offset; so on
  an empty cache a map with at least one entry gives exactly one broker call for the two
  calls. A further call with \<open>m'\<close>, a map over topics and partitions of \<open>m\<close> in
  which some offset differs, issues one more broker call, whose payloads are exactly the
  entries of \<open>m'\<close> that are not entries of \<open>m\<close>.
\<close>

theorem commit_offsets_diffing:
  assumes "wf_offsets_map m" and "wf_offsets_map m'"
  shows "sent_offset_commit_requests (commit_offsets m (commit_offsets m s))
           = sent_offset_commit_requests (commit_offsets m s)
       \<and> (changed_entries m (topic_to_partition_offset_map_cache s) = [] \<longrightarrow>
            sent_offset_commit_requests (commit_offsets m s) = sent_offset_commit_requests s)
       \<and> (changed_entries m (topic_to_partition_offset_map_cache s) \<noteq> [] \<longrightarrow>
            (\<exists>payloads.
               sent_offset_commit_requests (commit_offsets m s)
                 = sent_offset_commit_requests s @ [payloads]
               \<and> set (map payload_entry payloads)
                 = set (changed_entries m (topic_to_partition_offset_map_cache s))))
       \<and> (topic_to_partition_offset_map_cache s = [] \<and> entries m \<noteq> [] \<longrightarrow>
            length (sent_offset_commit_requests (commit_offsets m (commit_offsets m s)))
              = length (sent_offset_commit_requests s) + 1)
       \<and> ((\<forall>e\<in>set (entries m'). entry_key e \<in> entry_key ` set (entries m))
            \<and> \<not> set (entries m') \<subseteq> set (entries m) \<longrightarrow>
            (\<exists>payloads.
               sent_offset_commit_requests
                   (commit_offsets m' (commit_offsets m (commit_offsets m s)))
                 = sent_offset_commit_requests (commit_offsets m (commit_offsets m s)) @ [payloads]
               \<and> set (map payload_entry payloads) = set (entries m') - set (entries m)))"
proof -
  let ?cache = "topic_to_partition_offset_map_cache"
  let ?sent = "sent_offset_commit_requests"
  let ?s1 = "commit_offsets m s"
  let ?s2 = "commit_offsets m ?s1"
  have second: "?sent ?s2 = ?sent ?s1"
    using commit_offsets_sent [OF assms(1), of ?s1] changed_entries_after_commit [OF assms(1), of s]
    by auto
  have unchanged: "changed_entries m (?cache s) = [] \<longrightarrow> ?sent ?s1 = ?sent s"
    using commit_offsets_sent [OF assms(1), of s] by auto
  have changed: "changed_entries m (?cache s) \<noteq> [] \<longrightarrow>
      (\<exists>payloads. ?sent ?s1 = ?sent s @ [payloads]
         \<and> set (map payload_entry payloads) = set (changed_entries m (?cache s)))"
    using commit_offsets_sent [OF assms(1), of s] by auto
  have fresh: "?cache s = [] \<and> entries m \<noteq> [] \<longrightarrow> length (?sent ?s2) = length (?sent s) + 1"
  proof
    assume a: "?cache s = [] \<and> entries m \<noteq> []"
    then have "changed_entries m (?cache s) = entries m"
      by (simp add: changed_entries_def cached_offset_Nil)
    with a changed second show "length (?sent ?s2) = length (?sent s) + 1" by auto
  qed
  have third: "(\<forall>e\<in>set (entries m'). entry_key e \<in> entry_key ` set (entries m))
            \<and> \<not> set (entries m') \<subseteq> set (entries m) \<longrightarrow>
      (\<exists>payloads. ?sent (commit_offsets m' ?s2) = ?sent ?s2 @ [payloads]
         \<and> set (map payload_entry payloads) = set (entries m') - set (entries m))"
  proof
    assume a: "(\<forall>e\<in>set (entries m'). entry_key e \<in> entry_key ` set (entries m))
            \<and> \<not> set (entries m') \<subseteq> set (entries m)"
    then have eq: "set (changed_entries m' (?cache ?s2)) = set (entries m') - set (entries m)"
      using changed_entries_same_keys [OF assms, of ?s1] by blast
    with a have "changed_entries m' (?cache ?s2) \<noteq> []" by auto
    with commit_offsets_sent [OF assms(2), of ?s2] eq
    show "\<exists>payloads. ?sent (commit_offsets m' ?s2) = ?sent ?s2 @ [payloads]
         \<and> set (map payload_entry payloads) = set (entries m') - set (entries m)"
      by auto
  qed
  from second unchanged changed fresh third show ?thesis by blast
qed

theorem commit_offsets_diffing_witness:
  "wf_offsets_map [(''t'', [(0, 5)])] \<and> wf_offsets_map [(''t'', [(0, 6)])]
   \<and> sent_offset_commit_requests
        (commit_offsets [(''t'', [(0, 5)])] (commit_offsets [(''t'', [(0, 5)])] fresh_consumer))
       = [[OffsetCommitRequest ''t'' 0 5 None]]
   \<and> (\<exists>payloads.
         sent_offset_commit_requests
           (commit_offsets [(''t'', [(0, 6)])]
              (commit_offsets [(''t'', [(0, 5)])] (commit_offsets [(''t'', [(0, 5)])] fresh_consumer)))
           = [[OffsetCommitRequest ''t'' 0 5 None], payloads]
         \<and> set (map payload_entry payloads) = {(''t'', 0, 6)})"
proof -
  have w1: "wf_offsets_map [(''t'', [(0, 5)])]" and w2: "wf_offsets_map [(''t'', [(0, 6)])]"
    by (simp_all add: wf_offsets_map_def)
  have keys: "\<forall>e\<in>set (entries [(''t'', [(0, 6)])]).
      entry_key e \<in> entry_key ` set (entries [(''t'', [(0, 5)])])"
    by (simp add: entries_def entry_key_def)
  have diff: "\<not> set (entries [(''t'', [(0, 6)])]) \<subseteq> set (entries [(''t'', [(0, 5)])])"
    by (simp add: entries_def)
  have minus: "set (entries [(''t'', [(0, 6)])]) - set (entries [(''t'', [(0, 5)])]) = {(''t'', 0, 6)}"
    by (simp add: entries_def)
  let ?m = "[(''t'', [(0, 5)])]"
  let ?s2 = "commit_offsets ?m (commit_offsets ?m fresh_consumer)"
  note inst = commit_offsets_diffing [OF w1 w2, of fresh_consumer]
  from inst have "sent_offset_commit_requests ?s2
      = sent_offset_commit_requests (commit_offsets ?m fresh_consumer)"
    by blast
  then have twice: "sent_offset_commit_requests ?s2 = [[OffsetCommitRequest ''t'' 0 5 None]]"
    by (simp add: commit_example_first)
  from inst keys diff obtain payloads where
    "sent_offset_commit_requests (commit_offsets [(''t'', [(0, 6)])] ?s2)
       = sent_offset_commit_requests ?s2 @ [payloads]"
    and "set (map payload_entry payloads)
       = set (entries [(''t'', [(0, 6)])]) - set (entries ?m)"
    by blast
  with twice minus have "\<exists>payloads.
         sent_offset_commit_requests (commit_offsets [(''t'', [(0, 6)])] ?s2)
           = [[OffsetCommitRequest ''t'' 0 5 None], payloads]
         \<and> set (map payload_entry payloads) = {(''t'', 0, 6)}"
    by simp
  with w1 w2 twice show ?thesis by blast
qed

end
